theory Spec2Isabelle
  imports Complex_Main "HOL-Library.AList"
begin

section \<open>Conventions of the embedding\<close>

text \<open>
  The development embeds the analysis routines of
  \<^verbatim>\<open>seekr2/modules/mmvt_analyze.py\<close>.

  \<^item> Python and numpy floating-point numbers are modelled by the real numbers:
    every arithmetic operation is exact.  Where numpy would produce an IEEE special
    value (a division by zero gives \<^verbatim>\<open>inf\<close> or \<^verbatim>\<open>nan\<close> with a warning and
    the program goes on), the model stops with the outcome \<open>NonFinite\<close>: the run has
    left the real numbers and nothing more is said about it.  Where such a value is only
    stored (the mean of an empty list, a rate over a zero total time), it is the \<open>None\<close>
    of an option.
  \<^item> A raise or a failed \<^verbatim>\<open>assert\<close> is the left summand of the result type.
  \<^item> A two-dimensional numpy array is the list of its rows.
  \<^item> A \<^verbatim>\<open>dict\<close> is an association list in insertion order; a key is stored with
    \<open>AList.update\<close>, which overwrites in place or appends, as Python does.
  \<^item> A \<^verbatim>\<open>for\<close> loop over a list or a range is \<open>for_loop\<close>: the body maps the
    loop's state to the next state or to an error, and the first error ends the loop.
\<close>

text \<open>
  The ways a run ends without a result: the exceptions of Python that the functions can
  meet, the exceptions that they raise themselves and their assertions, one constructor
  for each \<^verbatim>\<open>raise\<close> and \<^verbatim>\<open>assert\<close>, and \<open>NonFinite\<close>.
  \<^item> \<open>NoStatistics\<close>: \<^verbatim>\<open>No statistics present in Data Sample\<close>;
    \<open>RiAlphaNotSet\<close>: \<^verbatim>\<open>R_i_alpha should always be set\<close>.
  \<^item> Of the reader: \<open>IncubationNegative\<close> (\<^verbatim>\<open>incubation times cannot be negative\<close>),
    \<open>BounceNegative\<close> (\<^verbatim>\<open>times between bounces cannot be negative\<close>),
    \<open>TotalTimeNegative\<close> (the assertion on \<open>T_alpha_total\<close>).
  \<^item> Of \<^verbatim>\<open>calculate_pi_alpha\<close>: \<open>OnlyOneBulk\<close>, \<open>NoBulk\<close>, and \<open>NegativeK\<close> of
    \<^verbatim>\<open>flux_matrix_to_K\<close>; \<open>LinAlgError\<close> is the solver's.
  \<^item> Of \<^verbatim>\<open>fill_out_data_quantities\<close>: \<open>TNegative\<close>, \<open>TAlphaNegative\<close>,
    \<open>TimeFractionNotPositive\<close>, \<open>PiAlphaNegative\<close>, \<open>CountNotPositive\<close>,
    \<open>TimeNotPositive\<close>.
  \<^item> Of \<^verbatim>\<open>monte_carlo_milestoning_error\<close>: \<open>NothingSampled\<close>.
\<close>

datatype error =
    IndexError
  | ValueError
  | TypeError
  | ZeroDivisionError
  | LinAlgError
  | NoStatistics
  | RiAlphaNotSet
  | IncubationNegative
  | BounceNegative
  | TotalTimeNegative
  | OnlyOneBulk
  | NoBulk
  | NegativeK
  | TNegative
  | TAlphaNegative
  | TimeFractionNotPositive
  | PiAlphaNegative
  | CountNotPositive
  | TimeNotPositive
  | NothingSampled
  | NonFinite

definition err_bind :: "error + 'a \<Rightarrow> ('a \<Rightarrow> error + 'b) \<Rightarrow> error + 'b" where
  "err_bind m f = (case m of Inl e \<Rightarrow> Inl e | Inr x \<Rightarrow> f x)"

fun for_loop :: "'i list \<Rightarrow> ('i \<Rightarrow> 's \<Rightarrow> error + 's) \<Rightarrow> 's \<Rightarrow> error + 's" where
  "for_loop [] body s = Inr s"
| "for_loop (i # is) body s = err_bind (body i s) (for_loop is body)"

type_synonym ndarray = "real list list"

definition zeros :: "nat \<Rightarrow> nat \<Rightarrow> ndarray" where
  "zeros r c = replicate r (replicate c 0)"



definition list_get :: "'a list \<Rightarrow> nat \<Rightarrow> error + 'a" where
  "list_get xs i = (if i < length xs then Inr (xs ! i) else Inl IndexError)"


text \<open>An array of shape \<open>(r, c)\<close>.\<close>

definition has_shape :: "ndarray \<Rightarrow> nat \<Rightarrow> nat \<Rightarrow> bool" where
  "has_shape M r c = (length M = r \<and> list_all (\<lambda>row. length row = c) M)"

section \<open>Rate matrices\<close>



section \<open>The model and the data sample\<close>

text \<open>
  The anchors and milestones of a model, with the attributes the analysis reads.
\<close>

record milestone =
  milestone_index :: int
  alias_index :: int
  neighbor_anchor_index :: int

record anchor =
  anchor_index :: int
  bulkstate :: bool
  milestones :: "milestone list"

record seekr_model =
  anchors :: "anchor list"
  num_anchors :: nat
  num_milestones :: nat





text \<open>
  \<^verbatim>\<open>MMVT_data_sample\<close>, with the attributes that the functions below read or write.
  An attribute that is \<^verbatim>\<open>None\<close> is \<open>None\<close>; counts are stored as numbers of the
  same type as times, since every use converts them.
\<close>

record data_sample =
  model :: seekr_model
  N_alpha_beta :: "((nat \<times> nat) \<times> real) list option"
  k_alpha_beta :: "((nat \<times> nat) \<times> real) list option"
  N_i_j_alpha :: "((int \<times> int) \<times> real) list list option"
  R_i_alpha :: "(int \<times> real) list list option"
  T_alpha :: "real list option"
  pi_alpha :: "real list option"
  N_ij :: "((int \<times> int) \<times> real) list option"
  R_i :: "(int \<times> real) list option"
  T :: "real option"







section \<open>The event-log reader\<close>

text \<open>
  A line of an event log, as \<^verbatim>\<open>openmm_read_output_file_list\<close> keeps it: the marker
  \<^verbatim>\<open>NEW_SWARM\<close>, or the three comma-separated fields of a data line, which the
  function reads with \<^verbatim>\<open>int\<close>, \<^verbatim>\<open>int\<close> and \<^verbatim>\<open>float\<close>: the boundary, the
  bounce index and the time.

  A file is its data lines in order (the lines that are neither comments nor blank) and,
  when its base name contains \<^verbatim>\<open>swarm\<close>, the swarm index that the name carries.
  Opening a file and converting a field can fail; such failures are not part of the model.
\<close>

datatype line = NEW_SWARM | Event int int real

record log_file =
  swarm_of_name :: "int option"
  data_lines :: "(int \<times> int \<times> real) list"

definition MAX_ITER :: nat where
  "MAX_ITER = 1000000000"

fun dest_time_of :: "line \<Rightarrow> error + real" where
  "dest_time_of NEW_SWARM = Inl ValueError"
| "dest_time_of (Event dest_boundary bounce_index dest_time) = Inr dest_time"

text \<open>
  The first loop (lines 88 to 119): the lines of every file that has any, with the marker
  first when the swarm index changes, and the start time of each such file.
\<close>

fun read_files :: "int \<Rightarrow> log_file list \<Rightarrow> line list list \<times> real list" where
  "read_files swarm_index [] = ([], [])"
| "read_files swarm_index (f # fs) =
     (let new_index = (case swarm_of_name f of None \<Rightarrow> swarm_index | Some k \<Rightarrow> k);
          marker = (case swarm_of_name f of None \<Rightarrow> []
                    | Some k \<Rightarrow> if k \<noteq> swarm_index then [NEW_SWARM] else []);
          file_lines = marker @ map (\<lambda>(b, k, t). Event b k t) (data_lines f);
          start_time = (case data_lines f of [] \<Rightarrow> 0 | (b, k, t) # _ \<Rightarrow> t);
          (files_lines, start_times) = read_files new_index fs
      in if file_lines = [] then (files_lines, start_times)
         else (file_lines # files_lines, start_time # start_times))"

text \<open>
  The \<^verbatim>\<open>while\<close> loop of the restart check (lines 144 to 152): lines are popped from
  the end while the last one is later than the start of the next file.
\<close>

function pop_late :: "real \<Rightarrow> nat \<Rightarrow> line list \<Rightarrow> error + line list" where
  "pop_late next_start_time counter file_lines =
     (if file_lines = [] then Inl IndexError
      else err_bind (dest_time_of (last file_lines)) (\<lambda>t.
        if t > next_start_time then
          (let file_lines1 = butlast file_lines in
           if file_lines1 = [] then Inl IndexError
           else
             (let file_lines2 =
                (if last file_lines1 = NEW_SWARM then butlast file_lines1 else file_lines1)
              in if counter > MAX_ITER \<or> file_lines2 = [] then Inr file_lines2
                 else pop_late next_start_time (counter + 1) file_lines2))
        else Inr file_lines))"
  by pat_completeness auto
termination
  by (relation "measure (\<lambda>(n, c, fl). length fl)") auto

definition next_start_time_of :: "line list list \<Rightarrow> real list \<Rightarrow> nat \<Rightarrow> error + real" where
  "next_start_time_of files_lines start_times i =
     (if i + 1 < length files_lines then
        err_bind (list_get (files_lines ! (i + 1)) 0) (\<lambda>first.
        if first = NEW_SWARM then Inr (10 ^ 99) else list_get start_times (i + 1))
      else Inr (10 ^ 99))"

text \<open>The second loop (lines 121 to 154): the lines of the files, merged.\<close>

definition merge_files_lines :: "bool \<Rightarrow> line list list \<Rightarrow> real list \<Rightarrow> error + line list" where
  "merge_files_lines skip_restart_check files_lines start_times =
     for_loop [0..<length files_lines] (\<lambda>i lines.
       (let file_lines = files_lines ! i in
        if \<not> skip_restart_check \<and> file_lines \<noteq> [] then
          err_bind (next_start_time_of files_lines start_times i) (\<lambda>next_start_time.
            (let file_lines =
               (if last file_lines = NEW_SWARM then butlast file_lines else file_lines)
             in if file_lines = [] then Inr lines
                else err_bind (pop_late next_start_time 0 file_lines) (\<lambda>file_lines.
                       Inr (lines @ file_lines))))
        else Inr (lines @ file_lines))) []"

text \<open>
  The state of the third loop (lines 163 to 226).  \<open>src\<close> holds \<open>src_boundary\<close> and
  \<open>src_time\<close>, which are set and reset together.  The keys of \<open>R_i_alpha_list\<close> are
  optional because the fallback after the loop stores under \<open>src_boundary\<close>, which is
  \<^verbatim>\<open>None\<close> when no line was counted.
\<close>

record reader_loop =
  loop_N_i_j_alpha :: "((int \<times> int) \<times> nat) list"
  loop_R_i_alpha_list :: "(int option \<times> real list) list"
  loop_N_alpha_beta :: "(int \<times> nat) list"
  loop_T_alpha_list :: "real list"
  last_bounce_time :: real
  src :: "(int \<times> real) option"

definition count_up :: "('k \<times> nat) list \<Rightarrow> 'k \<Rightarrow> ('k \<times> nat) list" where
  "count_up d key = AList.update key ((case map_of d key of None \<Rightarrow> 0 | Some c \<Rightarrow> c) + 1) d"

definition list_append_at :: "('k \<times> 'a list) list \<Rightarrow> 'k \<Rightarrow> 'a \<Rightarrow> ('k \<times> 'a list) list" where
  "list_append_at d key x =
     AList.update key ((case map_of d key of None \<Rightarrow> [] | Some l \<Rightarrow> l) @ [x]) d"

definition before_min :: "real option \<Rightarrow> real \<Rightarrow> bool" where
  "before_min min_time dest_time = (case min_time of None \<Rightarrow> False | Some m \<Rightarrow> dest_time < m)"

definition after_max :: "real option \<Rightarrow> real \<Rightarrow> bool" where
  "after_max max_time dest_time = (case max_time of None \<Rightarrow> False | Some m \<Rightarrow> dest_time > m)"

fun process_lines ::
  "real option \<Rightarrow> real option \<Rightarrow> bool \<Rightarrow> line list \<Rightarrow> reader_loop \<Rightarrow> error + reader_loop" where
  "process_lines min_time max_time skip_restart_check [] s = Inr s"
| "process_lines min_time max_time skip_restart_check (NEW_SWARM # lines) s =
     process_lines min_time max_time skip_restart_check lines
       (s\<lparr>last_bounce_time := - 1, src := None\<rparr>)"
| "process_lines min_time max_time skip_restart_check
       (Event dest_boundary bounce_index dest_time # lines) s =
     (if before_min min_time dest_time
      then process_lines min_time max_time skip_restart_check lines s
      else if after_max max_time dest_time then Inr s
      else case src s of
        None \<Rightarrow> process_lines min_time max_time skip_restart_check lines
                  (s\<lparr>src := Some (dest_boundary, dest_time), last_bounce_time := dest_time\<rparr>)
      | Some (src_boundary, src_time) \<Rightarrow>
          err_bind
            (if src_boundary \<noteq> dest_boundary then
               (let time_diff = dest_time - src_time in
                if \<not> skip_restart_check \<and> \<not> time_diff \<ge> 0 then Inl IncubationNegative
                else Inr (s\<lparr>loop_N_i_j_alpha :=
                               count_up (loop_N_i_j_alpha s) (src_boundary, dest_boundary),
                             loop_R_i_alpha_list :=
                               list_append_at (loop_R_i_alpha_list s) (Some src_boundary) time_diff,
                             src := Some (dest_boundary, dest_time)\<rparr>))
             else Inr s)
            (\<lambda>s.
               (let s = s\<lparr>loop_N_alpha_beta := count_up (loop_N_alpha_beta s) dest_boundary\<rparr>
                in if \<not> dest_time - last_bounce_time s \<ge> 0 then Inl BounceNegative
                   else process_lines min_time max_time skip_restart_check lines
                          (s\<lparr>loop_T_alpha_list :=
                               loop_T_alpha_list s @ [dest_time - last_bounce_time s],
                             last_bounce_time := dest_time\<rparr>))))"

text \<open>
  \<^verbatim>\<open>np.mean\<close> and \<^verbatim>\<open>np.std\<close> of a list; of the empty list they are
  \<^verbatim>\<open>nan\<close>, here \<open>None\<close>.
\<close>

definition np_mean :: "real list \<Rightarrow> real option" where
  "np_mean xs = (if xs = [] then None else Some (sum_list xs / real (length xs)))"

definition np_std :: "real list \<Rightarrow> real option" where
  "np_std xs =
     (case np_mean xs of None \<Rightarrow> None
      | Some m \<Rightarrow> Some (sqrt (sum_list (map (\<lambda>x. (x - m)\<^sup>2) xs) / real (length xs))))"

text \<open>The eleven values that \<^verbatim>\<open>openmm_read_output_file_list\<close> returns.\<close>

record reader_result =
  res_N_i_j_alpha :: "((int \<times> int) \<times> nat) list"
  res_R_i_alpha_list :: "(int option \<times> real list) list"
  res_R_i_alpha_average :: "(int option \<times> real option) list"
  res_R_i_alpha_std_dev :: "(int option \<times> real option) list"
  res_R_i_alpha_total :: "(int option \<times> real) list"
  res_N_alpha_beta :: "(int \<times> nat) list"
  res_T_alpha_list :: "real list"
  res_T_alpha_average :: "real option"
  res_T_alpha_std_dev :: "real option"
  res_T_alpha_total :: real
  res_lines :: "line list"

definition reader_statistics :: "reader_loop \<Rightarrow> line list \<Rightarrow> reader_result" where
  "reader_statistics s lines =
     (let R_i_alpha_list = loop_R_i_alpha_list s;
          T_alpha_list = loop_T_alpha_list s;
          src_boundary = map_option fst (src s);
          fallback = (R_i_alpha_list = [])
      in \<lparr> res_N_i_j_alpha = loop_N_i_j_alpha s,
           res_R_i_alpha_list =
             (if fallback then [(src_boundary, T_alpha_list)] else R_i_alpha_list),
           res_R_i_alpha_average =
             (if fallback then [(src_boundary, np_mean T_alpha_list)]
              else map (\<lambda>(key, l). (key, np_mean l)) R_i_alpha_list),
           res_R_i_alpha_std_dev =
             (if fallback then [(src_boundary, np_std T_alpha_list)]
              else map (\<lambda>(key, l). (key, np_std l)) R_i_alpha_list),
           res_R_i_alpha_total =
             (if fallback then [(src_boundary, sum_list T_alpha_list)]
              else map (\<lambda>(key, l). (key, sum_list l)) R_i_alpha_list),
           res_N_alpha_beta = loop_N_alpha_beta s,
           res_T_alpha_list = T_alpha_list,
           res_T_alpha_average = np_mean T_alpha_list,
           res_T_alpha_std_dev = np_std T_alpha_list,
           res_T_alpha_total = sum_list T_alpha_list,
           res_lines = lines \<rparr>)"

definition openmm_read_output_file_list ::
  "log_file list \<Rightarrow> real option \<Rightarrow> real option \<Rightarrow> line list option \<Rightarrow> bool
     \<Rightarrow> error + reader_result" where
  "openmm_read_output_file_list output_file_list min_time max_time existing_lines
       skip_restart_check =
     err_bind
       (case existing_lines of
          None \<Rightarrow> (let (files_lines, start_times) = read_files 0 output_file_list
                   in merge_files_lines skip_restart_check files_lines start_times)
        | Some lines \<Rightarrow> Inr lines)
       (\<lambda>lines.
     err_bind
       (process_lines min_time max_time skip_restart_check lines
          \<lparr> loop_N_i_j_alpha = [], loop_R_i_alpha_list = [], loop_N_alpha_beta = [],
            loop_T_alpha_list = [], last_bounce_time = - 1, src = None \<rparr>)
       (\<lambda>s. Inr (reader_statistics s lines)))"

text \<open>
  \<^verbatim>\<open>MMVT_anchor_statistics\<close> and its method \<^verbatim>\<open>read_output_file_list\<close> for the
  engine \<^verbatim>\<open>openmm\<close>.  The attributes that the constructor sets to \<^verbatim>\<open>None\<close> are
  optional.  A rate is a count divided by the numpy total time: with a zero total it is a
  special value, here \<open>None\<close>.
\<close>

record anchor_statistics =
  anchor_N_i_j_alpha :: "((int \<times> int) \<times> nat) list option"
  anchor_R_i_alpha_list :: "(int option \<times> real list) list option"
  anchor_R_i_alpha_average :: "(int option \<times> real option) list option"
  anchor_R_i_alpha_std_dev :: "(int option \<times> real option) list option"
  anchor_R_i_alpha_total :: "(int option \<times> real) list option"
  anchor_T_alpha_list :: "real list"
  anchor_T_alpha_average :: "real option"
  anchor_T_alpha_std_dev :: "real option"
  anchor_T_alpha_total :: "real option"
  anchor_N_alpha_beta :: "(int \<times> nat) list option"
  anchor_k_alpha_beta :: "(int \<times> real option) list"
  anchor_alpha :: int
  existing_lines :: "line list option"

definition rate_of :: "nat \<Rightarrow> real \<Rightarrow> real option" where
  "rate_of count total_time = (if total_time = 0 then None else Some (real count / total_time))"

fun fill_k_alpha_beta ::
  "(int \<times> nat) list \<Rightarrow> real \<Rightarrow> (int \<times> real option) list \<Rightarrow> (int \<times> real option) list" where
  "fill_k_alpha_beta [] total_time k = k"
| "fill_k_alpha_beta ((key, count) # rest) total_time k =
     fill_k_alpha_beta rest total_time (AList.update key (rate_of count total_time) k)"

definition read_output_file_list ::
  "anchor_statistics \<Rightarrow> log_file list \<Rightarrow> real option \<Rightarrow> real option
     \<Rightarrow> error + anchor_statistics" where
  "read_output_file_list self output_file_list min_time max_time =
     err_bind
       (openmm_read_output_file_list output_file_list min_time max_time
          (existing_lines self) False)
       (\<lambda>r.
          if \<not> res_T_alpha_total r \<ge> 0 then Inl TotalTimeNegative
          else Inr (self\<lparr>
            anchor_N_i_j_alpha := Some (res_N_i_j_alpha r),
            anchor_R_i_alpha_list := Some (res_R_i_alpha_list r),
            anchor_R_i_alpha_average := Some (res_R_i_alpha_average r),
            anchor_R_i_alpha_std_dev := Some (res_R_i_alpha_std_dev r),
            anchor_R_i_alpha_total := Some (res_R_i_alpha_total r),
            anchor_N_alpha_beta := Some (res_N_alpha_beta r),
            anchor_T_alpha_list := res_T_alpha_list r,
            anchor_T_alpha_average := res_T_alpha_average r,
            anchor_T_alpha_std_dev := res_T_alpha_std_dev r,
            anchor_T_alpha_total := Some (res_T_alpha_total r),
            existing_lines := Some (res_lines r),
            anchor_k_alpha_beta :=
              fill_k_alpha_beta (res_N_alpha_beta r) (res_T_alpha_total r)
                (anchor_k_alpha_beta self)\<rparr>))"

text \<open>The constructor \<^verbatim>\<open>MMVT_anchor_statistics(alpha)\<close>.\<close>

definition MMVT_anchor_statistics :: "int \<Rightarrow> anchor_statistics" where
  "MMVT_anchor_statistics a =
     \<lparr> anchor_N_i_j_alpha = None, anchor_R_i_alpha_list = None,
       anchor_R_i_alpha_average = None, anchor_R_i_alpha_std_dev = None,
       anchor_R_i_alpha_total = None, anchor_T_alpha_list = [],
       anchor_T_alpha_average = None, anchor_T_alpha_std_dev = None,
       anchor_T_alpha_total = None, anchor_N_alpha_beta = None,
       anchor_k_alpha_beta = [], anchor_alpha = a, existing_lines = None \<rparr>"

text \<open>
  An event log of three lines, the same log after a fourth line has arrived, and the
  statistics of an anchor after it has read the first and the second.
\<close>

definition example_log :: "log_file list" where
  "example_log = [\<lparr>swarm_of_name = None, data_lines = [(1, 0, 1), (2, 1, 2), (2, 2, 3)]\<rparr>]"


definition example_statistics :: anchor_statistics where
  "example_statistics =
     \<lparr> anchor_N_i_j_alpha = Some [((1, 2), 1)],
       anchor_R_i_alpha_list = Some [(Some 1, [1])],
       anchor_R_i_alpha_average = Some [(Some 1, Some 1)],
       anchor_R_i_alpha_std_dev = Some [(Some 1, Some 0)],
       anchor_R_i_alpha_total = Some [(Some 1, 1)],
       anchor_T_alpha_list = [1, 1],
       anchor_T_alpha_average = Some 1,
       anchor_T_alpha_std_dev = Some 0,
       anchor_T_alpha_total = Some 2,
       anchor_N_alpha_beta = Some [(2, 2)],
       anchor_k_alpha_beta = [(2, Some 1)],
       anchor_alpha = 0,
       existing_lines = Some [Event 1 0 1, Event 2 1 2, Event 2 2 3] \<rparr>"


text \<open>
  The merged sequence in the words of the (amended) statement about restarts: of every
  file with data lines, the lines up to the last one that is not later than the first
  line of the next such file; of the last file, up to the last line not later than
  \<open>10\<^sup>9\<^sup>9\<close>.
\<close>

definition time_of :: "int \<times> int \<times> real \<Rightarrow> real" where
  "time_of e = snd (snd e)"

definition event_line :: "int \<times> int \<times> real \<Rightarrow> line" where
  "event_line e = (case e of (b, k, t) \<Rightarrow> Event b k t)"

definition kept_events :: "real \<Rightarrow> (int \<times> int \<times> real) list \<Rightarrow> (int \<times> int \<times> real) list" where
  "kept_events next_start evs = rev (dropWhile (\<lambda>e. time_of e > next_start) (rev evs))"

definition next_start_of :: "(int \<times> int \<times> real) list list \<Rightarrow> nat \<Rightarrow> real" where
  "next_start_of evss i =
     (if i + 1 < length evss then time_of (hd (evss ! (i + 1))) else 10 ^ 99)"

definition restart_merge :: "(int \<times> int \<times> real) list list \<Rightarrow> (int \<times> int \<times> real) list" where
  "restart_merge evss =
     concat (map (\<lambda>i. kept_events (next_start_of evss i) (evss ! i)) [0..<length evss])"

definition files_with_data :: "log_file list \<Rightarrow> (int \<times> int \<times> real) list list" where
  "files_with_data output_file_list = filter (\<lambda>evs. evs \<noteq> []) (map data_lines output_file_list)"

section \<open>The global statistics of a data sample\<close>








section \<open>The stationary distribution of the anchors\<close>

















section \<open>The Monte Carlo error estimate\<close>

text \<open>
  \<^verbatim>\<open>monte_carlo_milestoning_error\<close>, as far as its loop goes.  The sampler of
  \<^verbatim>\<open>markov_chain_monte_carlo\<close> and the calculators of \<^verbatim>\<open>common_analyze\<close> are
  outside the files at hand and random, so one iteration is a parameter:
  \<^item> \<open>step counter chain\<close> is all that an iteration computes before the test of
    \<open>counter\<close>: it draws the new matrices from the running ones (\<open>chain\<close>) and builds
    the iteration's \<open>new_data_sample\<close>;
  \<^item> \<open>finish d\<close> is what a retained iteration adds to its data sample (the global
    rate matrix, thermodynamics and kinetics);
  \<^item> \<open>k_off_of d\<close> reads the observable \<open>k_off\<close> of a data sample.
  The result is \<open>data_sample_list\<close> and \<open>k_off_error\<close>; the other four dispersions
  are standard deviations of the retained values like \<open>k_off_error\<close>.  The integers
  \<open>num\<close>, \<open>skip\<close> and \<open>stride\<close> are Python's: \<open>range\<close> of a negative number is
  empty, and \<open>mod\<close> rounds towards minus infinity as \<^verbatim>\<open>%\<close> does.
\<close>

definition mc_iteration ::
  "(int \<Rightarrow> 'c \<Rightarrow> error + 'c \<times> 'd) \<Rightarrow> ('d \<Rightarrow> error + 'd) \<Rightarrow> int \<Rightarrow> int \<Rightarrow> int
     \<Rightarrow> 'c \<times> 'd option \<times> 'd list \<Rightarrow> error + 'c \<times> 'd option \<times> 'd list" where
  "mc_iteration step finish skip stride counter s =
     (case s of (chain, new_data_sample, data_sample_list) \<Rightarrow>
        err_bind (step counter chain) (\<lambda>(chain, new_data_sample).
          if counter > skip then
            (if stride = 0 then Inl ZeroDivisionError
             else if counter mod stride = 0 then
               err_bind (finish new_data_sample) (\<lambda>new_data_sample.
                 Inr (chain, Some new_data_sample, data_sample_list @ [new_data_sample]))
             else Inr (chain, Some new_data_sample, data_sample_list))
          else Inr (chain, Some new_data_sample, data_sample_list)))"

definition monte_carlo_milestoning_error ::
  "(int \<Rightarrow> 'c \<Rightarrow> error + 'c \<times> 'd) \<Rightarrow> ('d \<Rightarrow> error + 'd) \<Rightarrow> ('d \<Rightarrow> real) \<Rightarrow> nat \<Rightarrow> 'c
     \<Rightarrow> int \<Rightarrow> int option \<Rightarrow> int option \<Rightarrow> error + 'd list \<times> real option" where
  "monte_carlo_milestoning_error step finish k_off_of n_milestones chain num skip stride =
     (let skip = (case skip of None \<Rightarrow> 10 * (int n_milestones)\<^sup>2 | Some k \<Rightarrow> k);
          stride = (case stride of None \<Rightarrow> (int n_milestones)\<^sup>2 | Some k \<Rightarrow> k)
      in err_bind
           (for_loop [0..num * stride + skip - 1] (mc_iteration step finish skip stride)
              (chain, None, []))
           (\<lambda>(chain, new_data_sample, data_sample_list).
              case new_data_sample of
                None \<Rightarrow> Inl NothingSampled
              | Some d \<Rightarrow> Inr (data_sample_list, np_std (map k_off_of data_sample_list))))"

text \<open>The counters of the loop whose iteration is retained.\<close>

definition retained_counters :: "int \<Rightarrow> int \<Rightarrow> int \<Rightarrow> int list" where
  "retained_counters num skip stride =
     filter (\<lambda>counter. counter > skip \<and> counter mod stride = 0) [0..num * stride + skip - 1]"

section \<open>Loops and arrays: general facts\<close>

lemma err_bind_Inl [simp]: "err_bind (Inl e) f = Inl e"
  by (simp add: err_bind_def)

lemma err_bind_Inr [simp]: "err_bind (Inr x) f = f x"
  by (simp add: err_bind_def)

lemma err_bind_eq_Inr:
  "err_bind m f = Inr y \<longleftrightarrow> (\<exists>x. m = Inr x \<and> f x = Inr y)"
  by (cases m) auto


text \<open>
  The invariant rule of a loop that ends normally: \<open>P done s\<close> holds with \<open>done\<close> the
  indices already visited.
\<close>

lemma for_loop_invariant_gen:
  assumes "for_loop xs body s = Inr s'"
    and "P pre0 s"
    and "\<And>pre i post t t'. pre0 @ xs = pre @ i # post \<Longrightarrow> P pre t \<Longrightarrow>
           body i t = Inr t' \<Longrightarrow> P (pre @ [i]) t'"
  shows "P (pre0 @ xs) s'"
  using assms
proof (induction xs arbitrary: pre0 s)
  case Nil
  then show ?case by simp
next
  case (Cons x xs)
  from Cons.prems(1) obtain t where t: "body x s = Inr t" and rest: "for_loop xs body t = Inr s'"
    by (auto simp: err_bind_eq_Inr)
  have Pt: "P (pre0 @ [x]) t"
    using Cons.prems(3) [of pre0 x xs s t] Cons.prems(2) t by simp
  have "P ((pre0 @ [x]) @ xs) s'"
  proof (rule Cons.IH [OF rest Pt])
    fix pre i post u u'
    assume "(pre0 @ [x]) @ xs = pre @ i # post" "P pre u" "body i u = Inr u'"
    then show "P (pre @ [i]) u'"
      using Cons.prems(3) [of pre i post u u'] by simp
  qed
  then show ?case by simp
qed

lemma for_loop_invariant:
  assumes "for_loop xs body s = Inr s'"
    and "P [] s"
    and "\<And>pre i post t t'. xs = pre @ i # post \<Longrightarrow> P pre t \<Longrightarrow>
           body i t = Inr t' \<Longrightarrow> P (pre @ [i]) t'"
  shows "P xs s'"
  using for_loop_invariant_gen [of xs body s s' P "[]"] assms by simp

lemma upt_split_index:
  assumes "[0..<n] = pre @ i # post"
  shows "i = length pre \<and> i < n"
proof -
  have len: "length pre < n"
    using arg_cong [OF assms, of length] by simp
  have "[0..<n] ! length pre = i"
    using assms by (simp add: nth_append)
  then show ?thesis using len by simp
qed

lemma for_range_invariant:
  assumes run: "for_loop [0..<n] body s = Inr s'"
    and init: "P 0 s"
    and step: "\<And>i t t'. i < n \<Longrightarrow> P i t \<Longrightarrow> body i t = Inr t' \<Longrightarrow> P (Suc i) t'"
  shows "P n s'"
proof -
  have "(\<lambda>pre t. P (length pre) t) [0..<n] s'"
  proof (rule for_loop_invariant [OF run])
    show "P (length []) s" using init by simp
  next
    fix pre i post t t'
    assume "[0..<n] = pre @ i # post" "P (length pre) t" "body i t = Inr t'"
    then show "P (length (pre @ [i])) t'"
      using step [of i t t'] upt_split_index [of n pre i post] by simp
  qed
  then show ?thesis by simp
qed


lemma has_shape_zeros [simp]: "has_shape (zeros r c) r c"
  by (simp add: has_shape_def zeros_def list_all_length)

lemma zeros_nth [simp]: "i < r \<Longrightarrow> j < c \<Longrightarrow> zeros r c ! i ! j = 0"
  by (simp add: zeros_def)


lemma has_shape_length: "has_shape M r c \<Longrightarrow> length M = r"
  by (simp add: has_shape_def)








section \<open>Round trip of the per-anchor rate construction\<close>



section \<open>Row sums of the rate matrices\<close>













section \<open>Retained samples of the Monte Carlo loop\<close>

lemma mc_loop_length:
  assumes "for_loop cs (mc_iteration step finish skip stride) (ch, nd, dsl) = Inr (ch', nd', dsl')"
  shows "length dsl' = length dsl + length (filter (\<lambda>c. c > skip \<and> c mod stride = 0) cs)"
  using assms
proof (induction cs arbitrary: ch nd dsl)
  case Nil
  then show ?case by simp
next
  case (Cons c cs)
  from Cons.prems obtain ch1 nd1 dsl1 where
    it: "mc_iteration step finish skip stride c (ch, nd, dsl) = Inr (ch1, nd1, dsl1)"
    and rest: "for_loop cs (mc_iteration step finish skip stride) (ch1, nd1, dsl1) = Inr (ch', nd', dsl')"
    by (auto simp: err_bind_eq_Inr)
  have "length dsl1 = length dsl + (if c > skip \<and> c mod stride = 0 then 1 else 0)"
    using it by (auto simp: mc_iteration_def err_bind_eq_Inr split: if_splits)
  then show ?case using Cons.IH [OF rest] by simp
qed

lemma mc_loop_sampled:
  assumes "for_loop cs (mc_iteration step finish skip stride) (ch, nd, dsl) = Inr (ch', nd', dsl')"
    and "cs \<noteq> [] \<or> nd \<noteq> None"
  shows "nd' \<noteq> None"
  using assms
proof (induction cs arbitrary: ch nd dsl)
  case Nil
  then show ?case by simp
next
  case (Cons c cs)
  from Cons.prems(1) obtain ch1 nd1 dsl1 where
    it: "mc_iteration step finish skip stride c (ch, nd, dsl) = Inr (ch1, nd1, dsl1)"
    and rest: "for_loop cs (mc_iteration step finish skip stride) (ch1, nd1, dsl1) = Inr (ch', nd', dsl')"
    by (auto simp: err_bind_eq_Inr)
  have "nd1 \<noteq> None"
    using it by (auto simp: mc_iteration_def err_bind_eq_Inr split: if_splits)
  then show ?case using Cons.IH [OF rest] by simp
qed

lemma retained_set:
  fixes num skip stride :: int
  assumes "0 < stride" "stride dvd skip" "0 \<le> skip"
  shows "{c. skip < c \<and> c mod stride = 0} \<inter> set [0..num * stride + skip - 1]
           = (\<lambda>k. skip + k * stride) ` {1..num - 1}"
proof (intro set_eqI iffI)
  fix c
  assume "c \<in> {c. skip < c \<and> c mod stride = 0} \<inter> set [0..num * stride + skip - 1]"
  then have c: "skip < c" "stride dvd c" "c \<le> num * stride + skip - 1" by auto
  then have "stride dvd c - skip" using assms(2) by simp
  then obtain k where k: "c - skip = k * stride" by (auto simp: dvd_def mult.commute)
  have "0 < k * stride" using c(1) k by simp
  then have k1: "1 \<le> k" using assms(1) by (simp add: zero_less_mult_iff)
  have "k * stride < num * stride" using c(3) k by simp
  then have "k < num" using assms(1) by simp
  then have "k \<in> {1..num - 1}" using k1 by simp
  moreover have "c = skip + k * stride" using k by simp
  ultimately show "c \<in> (\<lambda>k. skip + k * stride) ` {1..num - 1}" by blast
next
  fix c
  assume "c \<in> (\<lambda>k. skip + k * stride) ` {1..num - 1}"
  then obtain k where "k \<in> {1..num - 1}" and kc: "c = skip + k * stride" by blast
  then have k: "c = skip + k * stride" "1 \<le> k" "k \<le> num - 1" by simp_all
  have pos: "0 < k * stride" using k(2) assms(1) by simp
  have "k * stride \<le> (num - 1) * stride" using k(3) assms(1) by simp
  then have up: "c \<le> num * stride + skip - 1" using k(1) assms(1) by (simp add: algebra_simps)
  have "c mod stride = 0" using k(1) assms(2) by simp
  then show "c \<in> {c. skip < c \<and> c mod stride = 0} \<inter> set [0..num * stride + skip - 1]"
    using pos k(1) up assms(3) by simp
qed

lemma retained_count:
  fixes num skip stride :: int
  assumes "0 < stride" "stride dvd skip" "0 \<le> skip"
  shows "length (retained_counters num skip stride) = nat (num - 1)"
proof -
  have "length (retained_counters num skip stride)
      = card ({c. skip < c \<and> c mod stride = 0} \<inter> set [0..num * stride + skip - 1])"
    unfolding retained_counters_def by (rule distinct_length_filter) simp
  also have "\<dots> = card ((\<lambda>k. skip + k * stride) ` {1..num - 1})"
    using retained_set [OF assms] by simp
  also have "\<dots> = card {1..num - 1}"
    using assms(1) by (intro card_image) (simp add: inj_on_def)
  finally show ?thesis by simp
qed

lemma mc_eval3:
  "monte_carlo_milestoning_error (\<lambda>counter chain. Inr (chain, counter)) Inr (\<lambda>d. 0) 1 ()
       3 None None = Inr ([11, 12], Some 0)"
  by (simp add: monte_carlo_milestoning_error_def mc_iteration_def np_std_def np_mean_def
      upto.simps [of 0] upto.simps [of 1])


text \<open>
  Claim C6, as the code has it.  With the default \<open>skip = 10 N\<^sup>2\<close> and
  \<open>stride = N\<^sup>2\<close> (\<open>N \<ge> 1\<close> milestones) and \<open>num \<ge> 1\<close>, the loop runs over the
  \<open>num * stride + skip\<close> counters from \<open>0\<close> and retains those above \<open>skip\<close> that
  \<open>stride\<close> divides: \<open>skip + stride, \<dots>, skip + (num - 1) * stride\<close>.  A call that
  returns has accumulated \<open>num - 1\<close> samples in \<open>data_sample_list\<close>, one fewer than
  \<open>num\<close>.
\<close>

theorem monte_carlo_default_retains_num_minus_one:
  assumes "0 < n_milestones" and "1 \<le> num"
    and "monte_carlo_milestoning_error step finish k_off_of n_milestones chain num None None
           = Inr (data_sample_list, k_off_error)"
  shows "length data_sample_list = nat (num - 1)"
proof -
  define stride where "stride = (int n_milestones)\<^sup>2"
  define skip where "skip = 10 * (int n_milestones)\<^sup>2"
  from assms(3) obtain ch nd where
    "for_loop [0..num * stride + skip - 1] (mc_iteration step finish skip stride) (chain, None, [])
       = Inr (ch, nd, data_sample_list)"
    unfolding monte_carlo_milestoning_error_def stride_def skip_def Let_def
    by (auto simp: err_bind_eq_Inr split: option.splits)
  then have "length data_sample_list = length (retained_counters num skip stride)"
    using mc_loop_length [of "[0..num * stride + skip - 1]" step finish skip stride chain None "[]"]
    by (simp add: retained_counters_def)
  moreover have "0 < stride" "stride dvd skip" "0 \<le> skip"
    using assms(1) by (simp_all add: stride_def skip_def)
  ultimately show ?thesis by (simp add: retained_count)
qed

theorem monte_carlo_default_retains_num_minus_one_witness:
  "monte_carlo_milestoning_error (\<lambda>counter chain. Inr (chain, counter)) Inr (\<lambda>d. 0) 1 ()
       3 None None = Inr ([11, 12], Some 0) \<and>
   length [11, 12 :: int] = nat (3 - 1)"
  using monte_carlo_default_retains_num_minus_one
    [of 1 3 "\<lambda>counter chain. Inr (chain, counter)" Inr "\<lambda>d. 0" "()" "[11, 12]" "Some 0"]
    mc_eval3
  by simp

text \<open>
  Claim C7, as the code has it.  The final assertion looks at \<open>new_data_sample\<close>, which
  every iteration sets, and not at the retained samples: with \<open>num = 1\<close> and the default
  \<open>skip\<close> and \<open>stride\<close> of one milestone the loop runs eleven times, retains nothing,
  and the function returns an empty \<open>data_sample_list\<close> (and a \<open>k_off_error\<close> that is
  not a number) instead of failing.
\<close>

theorem monte_carlo_nothing_retained_no_error:
  "monte_carlo_milestoning_error (\<lambda>counter chain. Inr (chain, counter)) Inr (\<lambda>d. 0) 1 ()
       1 None None = Inr ([], None)"
  by (simp add: monte_carlo_milestoning_error_def mc_iteration_def np_std_def np_mean_def
      upto.simps [of 0] upto.simps [of 1])

section \<open>The assertions of the reader\<close>

lemma process_lines_no_incubation_error:
  "process_lines mn mx True ls s \<noteq> Inl IncubationNegative"
proof (induction ls arbitrary: s)
  case Nil
  show ?case by simp
next
  case (Cons l ls)
  show ?case
  proof (cases l)
    case NEW_SWARM
    then show ?thesis using Cons.IH by simp
  next
    case (Event b k t)
    show ?thesis
    proof (cases "src s")
      case None
      then show ?thesis using Event Cons.IH by simp
    next
      case (Some p)
      then show ?thesis using Event Cons.IH
        by (cases p) (simp add: Let_def)
    qed
  qed
qed

text \<open>
  Claim C5, amended.  At a line that the loop counts (it passes the tests of \<open>min_time\<close>
  and \<open>max_time\<close> and a source boundary is set):
  \<^item> with the restart check enabled, a negative incubation time (the boundary differs from
    the source boundary and the time is earlier than the source time) raises the
    incubation assertion;
  \<^item> a negative time since the last bounce raises the inter-bounce assertion, with the
    restart check enabled or not, unless the incubation assertion comes first;
  \<^item> with \<^verbatim>\<open>skip_restart_check=True\<close> the incubation assertion is never raised.
  Only the incubation assertion is behind the flag.
\<close>

theorem reader_time_assertions:
  "(src s = Some (src_boundary, src_time) \<and> \<not> before_min mn t \<and> \<not> after_max mx t \<and>
      src_boundary \<noteq> b \<and> t - src_time < 0 \<longrightarrow>
      process_lines mn mx False (Event b k t # ls) s = Inl IncubationNegative) \<and>
   (src s = Some (src_boundary, src_time) \<and> \<not> before_min mn t \<and> \<not> after_max mx t \<and>
      (skip \<or> src_boundary = b \<or> 0 \<le> t - src_time) \<and> t - last_bounce_time s < 0 \<longrightarrow>
      process_lines mn mx skip (Event b k t # ls) s = Inl BounceNegative) \<and>
   process_lines mn mx True ls s \<noteq> Inl IncubationNegative"
  by (auto simp: process_lines_no_incubation_error Let_def)

theorem reader_time_assertions_witness:
  "process_lines None None False [Event 2 1 3]
     \<lparr>loop_N_i_j_alpha = [], loop_R_i_alpha_list = [], loop_N_alpha_beta = [],
      loop_T_alpha_list = [], last_bounce_time = 5, src = Some (1, 5)\<rparr> = Inl IncubationNegative \<and>
   process_lines None None True [Event 2 1 3]
     \<lparr>loop_N_i_j_alpha = [], loop_R_i_alpha_list = [], loop_N_alpha_beta = [],
      loop_T_alpha_list = [], last_bounce_time = 5, src = Some (1, 5)\<rparr> = Inl BounceNegative \<and>
   process_lines None None True [Event 2 1 3]
     \<lparr>loop_N_i_j_alpha = [], loop_R_i_alpha_list = [], loop_N_alpha_beta = [],
      loop_T_alpha_list = [], last_bounce_time = 5, src = Some (1, 5)\<rparr> \<noteq> Inl IncubationNegative"
  using reader_time_assertions [of
      "\<lparr>loop_N_i_j_alpha = [], loop_R_i_alpha_list = [], loop_N_alpha_beta = [],
      loop_T_alpha_list = [], last_bounce_time = 5, src = Some (1, 5)\<rparr>" 1 5 None 3 None 2 1 "[]" True]
  by (simp add: before_min_def after_max_def)

text \<open>
  The claim as it was stated fails: with \<^verbatim>\<open>skip_restart_check=True\<close> a log whose
  second bounce is earlier than the first ends in the inter-bounce assertion.
\<close>

theorem reader_skip_still_asserts_counterexample:
  "openmm_read_output_file_list
     [\<lparr>swarm_of_name = None, data_lines = [(1, 0, 5), (1, 1, 3)]\<rparr>] None None None True
   = Inl BounceNegative"
  by (simp add: openmm_read_output_file_list_def merge_files_lines_def before_min_def
      after_max_def count_up_def)

section \<open>Reading the same logs again\<close>

lemma count_up_distinct:
  "distinct (map fst d) \<Longrightarrow> distinct (map fst (count_up d key))"
  by (simp add: count_up_def distinct_update)

lemma process_lines_distinct:
  assumes "process_lines mn mx skip ls s = Inr s'"
    and "distinct (map fst (loop_N_alpha_beta s))"
  shows "distinct (map fst (loop_N_alpha_beta s'))"
  using assms
proof (induction ls arbitrary: s)
  case Nil
  then show ?case by simp
next
  case (Cons l ls)
  show ?case
  proof (cases l)
    case NEW_SWARM
    then show ?thesis using Cons.prems Cons.IH [of "s\<lparr>last_bounce_time := - 1, src := None\<rparr>"]
      by simp
  next
    case (Event b k t)
    show ?thesis
    proof (cases "src s")
      case None
      then show ?thesis using Event Cons.prems
        by (auto split: if_splits intro: Cons.IH)
    next
      case (Some p)
      then show ?thesis using Event Cons.prems
        by (cases p)
           (auto simp: Let_def err_bind_eq_Inr count_up_distinct split: if_splits
                 intro!: Cons.IH)
    qed
  qed
qed

lemma fill_k_other:
  "key \<notin> fst ` set N \<Longrightarrow> map_of (fill_k_alpha_beta N total_time k) key = map_of k key"
  by (induction N total_time k rule: fill_k_alpha_beta.induct) (auto simp: update_conv)

lemma fill_k_stored:
  "distinct (map fst N) \<Longrightarrow> (key, c) \<in> set N \<Longrightarrow>
     map_of (fill_k_alpha_beta N total_time k) key = Some (rate_of c total_time)"
proof (induction N total_time k rule: fill_k_alpha_beta.induct)
  case (1 total_time k)
  then show ?case by simp
next
  case (2 key' c' rest total_time k)
  show ?case
  proof (cases "(key, c) = (key', c')")
    case True
    then have "key \<notin> fst ` set rest" using "2.prems"(1) by auto
    then show ?thesis using True by (simp add: fill_k_other update_conv)
  next
    case False
    then show ?thesis using 2 by auto
  qed
qed

lemma fill_k_fixed:
  "(\<And>key c. (key, c) \<in> set N \<Longrightarrow> map_of k key = Some (rate_of c total_time)) \<Longrightarrow>
     fill_k_alpha_beta N total_time k = k"
proof (induction N total_time k rule: fill_k_alpha_beta.induct)
  case (1 total_time k)
  then show ?case by simp
next
  case (2 key c rest total_time k)
  have "AList.update key (rate_of c total_time) k = k"
    using "2.prems" [of key c] by (simp add: update_triv)
  then show ?case using 2 by simp
qed

lemma fill_k_idem:
  "distinct (map fst N) \<Longrightarrow>
     fill_k_alpha_beta N total_time (fill_k_alpha_beta N total_time k) = fill_k_alpha_beta N total_time k"
  by (rule fill_k_fixed) (simp add: fill_k_stored)

lemma openmm_read_cached:
  assumes "openmm_read_output_file_list files mn mx el skip = Inr r"
  shows "openmm_read_output_file_list files' mn mx (Some (res_lines r)) skip = Inr r"
  using assms unfolding openmm_read_output_file_list_def
  by (auto simp: err_bind_eq_Inr reader_statistics_def Let_def)

lemma openmm_read_distinct:
  assumes "openmm_read_output_file_list files mn mx el skip = Inr r"
  shows "distinct (map fst (res_N_alpha_beta r))"
proof -
  from assms obtain ls s where
    "process_lines mn mx skip ls
          \<lparr> loop_N_i_j_alpha = [], loop_R_i_alpha_list = [], loop_N_alpha_beta = [],
            loop_T_alpha_list = [], last_bounce_time = - 1, src = None \<rparr> = Inr s"
    and "r = reader_statistics s ls"
    unfolding openmm_read_output_file_list_def by (auto simp: err_bind_eq_Inr)
  then show ?thesis
    using process_lines_distinct [of mn mx skip ls _ s]
    by (simp add: reader_statistics_def Let_def)
qed

lemmas reader_eval =
  read_output_file_list_def openmm_read_output_file_list_def merge_files_lines_def
  next_start_time_of_def list_get_def MMVT_anchor_statistics_def reader_statistics_def
  before_min_def after_max_def count_up_def list_append_at_def np_mean_def np_std_def
  rate_of_def MAX_ITER_def Let_def

lemma first_read:
  "read_output_file_list (MMVT_anchor_statistics 0) example_log None None = Inr example_statistics"
  by (simp add: reader_eval example_log_def example_statistics_def)


text \<open>
  Claim C8.  When \<^verbatim>\<open>MMVT_anchor_statistics.read_output_file_list\<close> has read a list of
  files, a second call with the same files and the same \<open>min_time\<close> and \<open>max_time\<close>
  leaves every statistic as the first call set it: the counts \<open>N_i_j_alpha\<close> and
  \<open>N_alpha_beta\<close>, the incubation times with their totals, the times between bounces with
  their total, and the rates \<open>k_alpha_beta\<close>.
\<close>

theorem reread_same_statistics:
  assumes "read_output_file_list self output_file_list min_time max_time = Inr self1"
  shows "read_output_file_list self1 output_file_list min_time max_time = Inr self1"
proof -
  from assms obtain r where
    r: "openmm_read_output_file_list output_file_list min_time max_time (existing_lines self) False = Inr r"
    and T: "res_T_alpha_total r \<ge> 0"
    and self1: "self1 = self\<lparr>
            anchor_N_i_j_alpha := Some (res_N_i_j_alpha r),
            anchor_R_i_alpha_list := Some (res_R_i_alpha_list r),
            anchor_R_i_alpha_average := Some (res_R_i_alpha_average r),
            anchor_R_i_alpha_std_dev := Some (res_R_i_alpha_std_dev r),
            anchor_R_i_alpha_total := Some (res_R_i_alpha_total r),
            anchor_N_alpha_beta := Some (res_N_alpha_beta r),
            anchor_T_alpha_list := res_T_alpha_list r,
            anchor_T_alpha_average := res_T_alpha_average r,
            anchor_T_alpha_std_dev := res_T_alpha_std_dev r,
            anchor_T_alpha_total := Some (res_T_alpha_total r),
            existing_lines := Some (res_lines r),
            anchor_k_alpha_beta :=
              fill_k_alpha_beta (res_N_alpha_beta r) (res_T_alpha_total r)
                (anchor_k_alpha_beta self)\<rparr>"
    unfolding read_output_file_list_def by (auto simp: err_bind_eq_Inr split: if_splits)
  have again: "openmm_read_output_file_list output_file_list min_time max_time
      (existing_lines self1) False = Inr r"
    using openmm_read_cached [OF r] self1 by simp
  have "fill_k_alpha_beta (res_N_alpha_beta r) (res_T_alpha_total r) (anchor_k_alpha_beta self1)
      = anchor_k_alpha_beta self1"
    using fill_k_idem [OF openmm_read_distinct [OF r]] self1 by simp
  then show ?thesis
    unfolding read_output_file_list_def using again T self1 by simp
qed

theorem reread_same_statistics_witness:
  "read_output_file_list (MMVT_anchor_statistics 0) example_log None None = Inr example_statistics \<and>
   read_output_file_list example_statistics example_log None None = Inr example_statistics"
  using reread_same_statistics [of "MMVT_anchor_statistics 0" example_log None None example_statistics]
    first_read
  by simp

section \<open>Reading again after the logs have grown\<close>




section \<open>The restart check\<close>

lemma event_line_not_swarm [simp]: "event_line e \<noteq> NEW_SWARM"
  by (cases e) (simp add: event_line_def)

lemma dest_time_of_event [simp]: "dest_time_of (event_line e) = Inr (time_of e)"
  by (cases e) (simp add: event_line_def time_of_def)

lemma read_files_no_swarm:
  assumes "\<forall>f\<in>set files. swarm_of_name f = None"
  shows "read_files swarm_index files
           = (map (map event_line) (files_with_data files),
              map (\<lambda>evs. time_of (hd evs)) (files_with_data files))"
  using assms
proof (induction files arbitrary: swarm_index)
  case Nil
  then show ?case by (simp add: files_with_data_def)
next
  case (Cons f fs)
  have ev: "(\<lambda>(b, k, t). Event b k t) = event_line"
    by (auto simp: event_line_def fun_eq_iff)
  have rest: "read_files swarm_index fs
           = (map (map event_line) (files_with_data fs),
              map (\<lambda>evs. time_of (hd evs)) (files_with_data fs))"
    using Cons by simp
  show ?case
  proof (cases "data_lines f")
    case Nil
    then show ?thesis using Cons.prems rest by (simp add: files_with_data_def)
  next
    case (Cons e es)
    then show ?thesis using Cons.prems rest
      by (cases e) (simp add: files_with_data_def ev time_of_def)
  qed
qed

lemma kept_events_snoc:
  "kept_events ns (xs @ [x]) = (if time_of x > ns then kept_events ns xs else xs @ [x])"
  by (simp add: kept_events_def)

lemma pop_late_events:
  assumes "evs \<noteq> []" and "counter + length evs \<le> MAX_ITER + 1"
  shows "pop_late ns counter (map event_line evs)
           = (if kept_events ns evs = [] then Inl IndexError
              else Inr (map event_line (kept_events ns evs)))"
  using assms
proof (induction evs arbitrary: counter rule: rev_induct)
  case Nil
  then show ?case by simp
next
  case (snoc x xs)
  show ?case
  proof (cases "time_of x > ns")
    case False
    then show ?thesis
      by (subst pop_late.simps) (simp add: kept_events_snoc)
  next
    case late: True
    show ?thesis
    proof (cases "xs = []")
      case True
      then show ?thesis using late
        by (subst pop_late.simps) (simp add: kept_events_def)
    next
      case False
      have c: "\<not> counter > MAX_ITER" using snoc.prems(2) by simp
      have last_ev: "last (map event_line xs) \<noteq> NEW_SWARM"
        using False by (simp add: last_map)
      have "pop_late ns counter (map event_line (xs @ [x]))
          = pop_late ns (counter + 1) (map event_line xs)"
        using late False c last_ev by (subst pop_late.simps) (simp add: Let_def)
      also have "\<dots> = (if kept_events ns xs = [] then Inl IndexError
              else Inr (map event_line (kept_events ns xs)))"
        using snoc.IH [of "counter + 1"] False snoc.prems(2) by simp
      finally show ?thesis using late by (simp add: kept_events_snoc)
    qed
  qed
qed

lemma merge_no_swarm:
  assumes run: "merge_files_lines False (map (map event_line) evss)
                  (map (\<lambda>evs. time_of (hd evs)) evss) = Inr lines"
    and nonempty: "\<forall>evs\<in>set evss. evs \<noteq> []"
    and short: "\<forall>evs\<in>set evss. length evs \<le> MAX_ITER"
  shows "lines = map event_line (restart_merge evss)"
    and "\<forall>i<length evss. kept_events (next_start_of evss i) (evss ! i) \<noteq> []"
proof -
  define n where "n = length evss"
  define kept where "kept = (\<lambda>i. kept_events (next_start_of evss i) (evss ! i))"
  define P where "P = (\<lambda>i ls. ls = map event_line (concat (map kept [0..<i])) \<and>
      (\<forall>j<i. kept j \<noteq> []))"
  define body where "body = (\<lambda>i lines.
       (let file_lines = map (map event_line) evss ! i in
        if \<not> False \<and> file_lines \<noteq> [] then
          err_bind (next_start_time_of (map (map event_line) evss)
                      (map (\<lambda>evs. time_of (hd evs)) evss) i) (\<lambda>next_start_time.
            (let file_lines =
               (if last file_lines = NEW_SWARM then butlast file_lines else file_lines)
             in if file_lines = [] then Inr lines
                else err_bind (pop_late next_start_time 0 file_lines) (\<lambda>file_lines.
                       Inr (lines @ file_lines))))
        else Inr (lines @ file_lines)))"
  have run': "for_loop [0..<n] body [] = Inr lines"
    using run by (simp add: merge_files_lines_def body_def n_def)
  have step: "P (Suc i) t'" if i: "i < n" and Pi: "P i t" and b: "body i t = Inr t'" for i t t'
  proof -
    have ne: "evss ! i \<noteq> []" using nonempty i by (auto simp: n_def)
    have "evss ! i \<in> set evss" using i by (simp add: n_def)
    then have "length (evss ! i) \<le> MAX_ITER" using short by blast
    then have len: "0 + length (evss ! i) \<le> MAX_ITER + 1" by simp
    have nst: "next_start_time_of (map (map event_line) evss)
                 (map (\<lambda>evs. time_of (hd evs)) evss) i = Inr (next_start_of evss i)"
    proof (cases "i + 1 < n")
      case True
      then have "evss ! (i + 1) \<in> set evss" by (simp add: n_def)
      then have "evss ! (i + 1) \<noteq> []" using nonempty by blast
      then obtain e es where "evss ! (i + 1) = e # es" by (cases "evss ! (i + 1)") auto
      then show ?thesis using True
        by (simp add: next_start_time_of_def next_start_of_def list_get_def n_def)
    next
      case False
      then show ?thesis by (simp add: next_start_time_of_def next_start_of_def n_def)
    qed
    have last_ev: "last (map event_line (evss ! i)) \<noteq> NEW_SWARM"
      using ne by (simp add: last_map)
    have "body i t = err_bind (pop_late (next_start_of evss i) 0 (map event_line (evss ! i)))
        (\<lambda>file_lines. Inr (t @ file_lines))"
      using i ne nst last_ev by (simp add: body_def n_def Let_def)
    also have "\<dots> = (if kept i = [] then Inl IndexError else Inr (t @ map event_line (kept i)))"
      using pop_late_events [OF ne len] by (simp add: kept_def)
    finally have "kept i \<noteq> []" and "t' = t @ map event_line (kept i)"
      using b by (auto split: if_splits)
    then show ?thesis using Pi by (auto simp: P_def less_Suc_eq)
  qed
  have "P n lines"
    by (rule for_range_invariant [OF run', where P = P]) (use step in \<open>auto simp: P_def\<close>)
  then show "lines = map event_line (restart_merge evss)"
    and "\<forall>i<length evss. kept_events (next_start_of evss i) (evss ! i) \<noteq> []"
    by (simp_all add: P_def restart_merge_def kept_def n_def)
qed

lemma kept_events_prefix: "\<exists>zs. evs = kept_events ns evs @ zs"
proof -
  have "rev evs = takeWhile (\<lambda>e. time_of e > ns) (rev evs) @ dropWhile (\<lambda>e. time_of e > ns) (rev evs)"
    by simp
  then have "evs = rev (dropWhile (\<lambda>e. time_of e > ns) (rev evs))
                 @ rev (takeWhile (\<lambda>e. time_of e > ns) (rev evs))"
    by (metis rev_append rev_rev_ident)
  then show ?thesis unfolding kept_events_def by blast
qed

lemma kept_events_last:
  assumes "kept_events ns evs \<noteq> []"
  shows "time_of (last (kept_events ns evs)) \<le> ns"
proof -
  have ne: "dropWhile (\<lambda>e. time_of e > ns) (rev evs) \<noteq> []"
    using assms by (simp add: kept_events_def)
  then have "\<not> time_of (hd (dropWhile (\<lambda>e. time_of e > ns) (rev evs))) > ns"
    by (rule hd_dropWhile)
  then show ?thesis using ne by (simp add: kept_events_def last_rev)
qed

lemma sorted_times_bounds:
  assumes "sorted (map time_of xs)" and "x \<in> set xs"
  shows "time_of (hd xs) \<le> time_of x" and "time_of x \<le> time_of (last xs)"
proof -
  from assms(2) obtain i where i: "i < length xs" "xs ! i = x" by (auto simp: in_set_conv_nth)
  have ne: "xs \<noteq> []" using assms(2) by auto
  have "map time_of xs ! 0 \<le> map time_of xs ! i"
    using assms(1) i(1) by (intro sorted_nth_mono) simp_all
  then show "time_of (hd xs) \<le> time_of x" using i ne by (simp add: hd_conv_nth)
  have "map time_of xs ! i \<le> map time_of xs ! (length xs - 1)"
    using assms(1) i(1) by (intro sorted_nth_mono) simp_all
  then show "time_of x \<le> time_of (last xs)" using i ne by (simp add: last_conv_nth)
qed

lemma restart_merge_sorted:
  assumes srt: "\<forall>evs\<in>set evss. sorted (map time_of evs)"
    and kept_ne: "\<forall>i<length evss. kept_events (next_start_of evss i) (evss ! i) \<noteq> []"
  shows "sorted (map time_of (restart_merge evss))"
proof -
  define kept where "kept = (\<lambda>i. kept_events (next_start_of evss i) (evss ! i))"
  have part: "sorted (map time_of (kept i)) \<and> hd (kept i) = hd (evss ! i) \<and>
      (\<forall>x\<in>set (kept i). time_of (hd (evss ! i)) \<le> time_of x \<and> time_of x \<le> next_start_of evss i)"
    if i: "i < length evss" for i
  proof -
    obtain zs where zs: "evss ! i = kept i @ zs"
      using kept_events_prefix [of "evss ! i" "next_start_of evss i"] by (auto simp: kept_def)
    have ne: "kept i \<noteq> []" using kept_ne i by (simp add: kept_def)
    have "sorted (map time_of (evss ! i))" using srt i by simp
    then have s: "sorted (map time_of (kept i))" using zs by (simp add: sorted_append)
    have h: "hd (kept i) = hd (evss ! i)" using zs ne by (metis hd_append2)
    have l: "time_of (last (kept i)) \<le> next_start_of evss i"
      using kept_events_last ne by (simp add: kept_def)
    show ?thesis
      using s h l sorted_times_bounds [OF s] by fastforce
  qed
  have "sorted (map time_of (concat (map kept [0..<i]))) \<and>
        (\<forall>x\<in>set (concat (map kept [0..<i])). 0 < i \<and> time_of x \<le> next_start_of evss (i - 1))"
    if "i \<le> length evss" for i
    using that
  proof (induction i)
    case 0
    then show ?case by simp
  next
    case (Suc i)
    then have IH: "sorted (map time_of (concat (map kept [0..<i])))"
      "\<forall>x\<in>set (concat (map kept [0..<i])). 0 < i \<and> time_of x \<le> next_start_of evss (i - 1)"
      and i: "i < length evss" by simp_all
    note p = part [OF i]
    have ne: "kept i \<noteq> []" using kept_ne i by (simp add: kept_def)
    have prev: "time_of x \<le> time_of (hd (evss ! i))" if "x \<in> set (concat (map kept [0..<i]))" for x
    proof -
      from IH(2) that have "0 < i" "time_of x \<le> next_start_of evss (i - 1)" by blast+
      then show ?thesis using i by (simp add: next_start_of_def)
    qed
    have cross: "time_of x \<le> time_of y"
      if "x \<in> set (concat (map kept [0..<i]))" "y \<in> set (kept i)" for x y
      using prev [OF that(1)] p that(2) by force
    have hd_in: "hd (kept i) \<in> set (kept i)" using ne by simp
    have up: "time_of x \<le> next_start_of evss i" if "x \<in> set (concat (map kept [0..<i]))" for x
      using cross [OF that hd_in] p hd_in by force
    have "sorted (map time_of (concat (map kept [0..<i]) @ kept i))"
      using IH(1) p cross by (auto simp: sorted_append)
    moreover have "\<forall>x\<in>set (concat (map kept [0..<i]) @ kept i). time_of x \<le> next_start_of evss i"
      using up p by auto
    ultimately show ?case by simp
  qed
  from this [of "length evss"] show ?thesis by (simp add: restart_merge_def kept_def)
qed

lemma restart_example_read:
  "openmm_read_output_file_list
     [\<lparr>swarm_of_name = None, data_lines = [(1, 0, 1), (1, 1, 2), (1, 2, 5)]\<rparr>,
      \<lparr>swarm_of_name = None, data_lines = [(1, 0, 3), (1, 1, 4)]\<rparr>] None None None False
   = Inr \<lparr> res_N_i_j_alpha = [], res_R_i_alpha_list = [(Some 1, [1, 1, 1])],
           res_R_i_alpha_average = [(Some 1, Some 1)],
           res_R_i_alpha_std_dev = [(Some 1, Some 0)],
           res_R_i_alpha_total = [(Some 1, 3)],
           res_N_alpha_beta = [(1, 3)], res_T_alpha_list = [1, 1, 1],
           res_T_alpha_average = Some 1, res_T_alpha_std_dev = Some 0,
           res_T_alpha_total = 3,
           res_lines = [Event 1 0 1, Event 1 1 2, Event 1 0 3, Event 1 1 4] \<rparr>"
  by (subst pop_late.simps | simp add: reader_eval numeral_2_eq_2)+

text \<open>
  Claim C4, amended.  Take log files that are not swarm files and have at most \<open>10\<^sup>9\<close>
  data lines each, read with the restart check enabled and no cached lines.  When the
  reader returns, its merged lines are, file after file, the lines of each file with data
  without its trailing lines that are strictly later than the first line of the next
  file with data; a trailing line at the very time of the restart is kept.  If the times
  within every file are non-decreasing, so are the times of the merged sequence.
\<close>

theorem restart_check_merge:
  assumes "\<forall>f\<in>set output_file_list. swarm_of_name f = None"
    and "\<forall>f\<in>set output_file_list. length (data_lines f) \<le> MAX_ITER"
    and "openmm_read_output_file_list output_file_list min_time max_time None False = Inr r"
  shows "res_lines r = map event_line (restart_merge (files_with_data output_file_list)) \<and>
         ((\<forall>f\<in>set output_file_list. sorted (map time_of (data_lines f))) \<longrightarrow>
            sorted (map time_of (restart_merge (files_with_data output_file_list))))"
proof -
  define evss where "evss = files_with_data output_file_list"
  have sub: "set evss \<subseteq> data_lines ` set output_file_list" and ne: "\<forall>evs\<in>set evss. evs \<noteq> []"
    by (auto simp: evss_def files_with_data_def)
  have short: "\<forall>evs\<in>set evss. length evs \<le> MAX_ITER" using sub assms(2) by auto
  from assms(3) obtain lines where
    m: "merge_files_lines False (map (map event_line) evss)
          (map (\<lambda>evs. time_of (hd evs)) evss) = Inr lines"
    and r: "res_lines r = lines"
    unfolding openmm_read_output_file_list_def
    by (auto simp: err_bind_eq_Inr read_files_no_swarm [OF assms(1)] evss_def
        reader_statistics_def Let_def)
  note mm = merge_no_swarm [OF m ne short]
  have "sorted (map time_of (restart_merge evss))"
    if "\<forall>f\<in>set output_file_list. sorted (map time_of (data_lines f))"
  proof (rule restart_merge_sorted [OF _ mm(2)])
    show "\<forall>evs\<in>set evss. sorted (map time_of evs)" using that sub by auto
  qed
  then show ?thesis using mm(1) r by (simp add: evss_def)
qed

theorem restart_check_merge_witness:
  "openmm_read_output_file_list
     [\<lparr>swarm_of_name = None, data_lines = [(1, 0, 1), (1, 1, 2), (1, 2, 5)]\<rparr>,
      \<lparr>swarm_of_name = None, data_lines = [(1, 0, 3), (1, 1, 4)]\<rparr>] None None None False
   = Inr \<lparr> res_N_i_j_alpha = [], res_R_i_alpha_list = [(Some 1, [1, 1, 1])],
           res_R_i_alpha_average = [(Some 1, Some 1)],
           res_R_i_alpha_std_dev = [(Some 1, Some 0)],
           res_R_i_alpha_total = [(Some 1, 3)],
           res_N_alpha_beta = [(1, 3)], res_T_alpha_list = [1, 1, 1],
           res_T_alpha_average = Some 1, res_T_alpha_std_dev = Some 0,
           res_T_alpha_total = 3,
           res_lines = [Event 1 0 1, Event 1 1 2, Event 1 0 3, Event 1 1 4] \<rparr> \<and>
   restart_merge (files_with_data
     [\<lparr>swarm_of_name = None, data_lines = [(1, 0, 1), (1, 1, 2), (1, 2, 5)]\<rparr>,
      \<lparr>swarm_of_name = None, data_lines = [(1, 0, 3), (1, 1, 4)]\<rparr>])
     = [(1, 0, 1), (1, 1, 2), (1, 0, 3), (1, 1, 4)] \<and>
   sorted (map time_of (restart_merge (files_with_data
     [\<lparr>swarm_of_name = None, data_lines = [(1, 0, 1), (1, 1, 2), (1, 2, 5)]\<rparr>,
      \<lparr>swarm_of_name = None, data_lines = [(1, 0, 3), (1, 1, 4)]\<rparr>])))"
proof -
  have m: "restart_merge (files_with_data
     [\<lparr>swarm_of_name = None, data_lines = [(1, 0, 1), (1, 1, 2), (1, 2, 5)]\<rparr>,
      \<lparr>swarm_of_name = None, data_lines = [(1, 0, 3), (1, 1, 4)]\<rparr>])
     = [(1, 0, 1), (1, 1, 2), (1, 0, 3), (1, 1, 4)]"
    by (simp add: restart_merge_def files_with_data_def kept_events_def next_start_of_def
        time_of_def numeral_2_eq_2)
  show ?thesis
    using restart_check_merge [OF _ _ restart_example_read] restart_example_read m
    by (simp add: MAX_ITER_def time_of_def)
qed

text \<open>
  The claim as it was stated fails twice.  A trailing line at the restart time \<open>2\<close> is
  not discarded, and the merged times \<open>1, 2, 2, 4\<close> do not increase strictly.  And a file
  whose own times go back (\<open>5, 1, 7\<close>; \<open>min_time = 2\<close> keeps the line at \<open>1\<close> from being
  counted) leaves merged times \<open>5, 1, 6\<close> that are not monotone at all.
\<close>

theorem restart_check_merge_counterexample:
  "map_sum id res_lines (openmm_read_output_file_list
     [\<lparr>swarm_of_name = None, data_lines = [(1, 0, 1), (1, 1, 2), (1, 2, 3)]\<rparr>,
      \<lparr>swarm_of_name = None, data_lines = [(1, 0, 2), (1, 1, 4)]\<rparr>] None None None False)
   = Inr [Event 1 0 1, Event 1 1 2, Event 1 0 2, Event 1 1 4] \<and>
   map_sum id res_lines (openmm_read_output_file_list
     [\<lparr>swarm_of_name = None, data_lines = [(1, 0, 5), (1, 1, 1), (1, 2, 7)]\<rparr>,
      \<lparr>swarm_of_name = None, data_lines = [(1, 0, 6)]\<rparr>] (Some 2) None None False)
   = Inr [Event 1 0 5, Event 1 1 1, Event 1 0 6]"
  by (subst pop_late.simps | simp add: reader_eval numeral_2_eq_2)+

section \<open>The global counts, incubation times and normalisation time\<close>








lemma non_bulk_upto_Suc:
  "filter (\<lambda>a. \<not> bulkstate (xs ! a)) [0..<Suc i]
     = filter (\<lambda>a. \<not> bulkstate (xs ! a)) [0..<i] @ (if bulkstate (xs ! i) then [] else [i])"
  by simp




section \<open>The normalisation of the stationary distribution\<close>

















end
